theory Spec2Isabelle
  imports Main "HOL-Library.Word"
begin

section \<open>A shallow embedding of the dynamic linker simulation\<close>

text \<open>
  The embedded program is \<^verbatim>\<open>src/dynamic-linker-sim.cpp\<close>. Conventions:
  \<^item> \<^verbatim>\<open>uint64_t\<close> and \<^verbatim>\<open>size_t\<close> are 64-bit words (an LP64 platform), so every
    addition, multiplication and increment wraps modulo \<open>2 ^ 64\<close> and \<open>div\<close> is unsigned
    division; \<^verbatim>\<open>uint8_t\<close> is an 8-bit word.
  \<^item> A \<^verbatim>\<open>std::array<T, N>\<close> is a function from indices to \<open>T\<close>. Only indices below \<open>N\<close>
    belong to the array: \<^verbatim>\<open>operator[]\<close> with an index \<open>\<ge> N\<close> is undefined behaviour in
    C++, and the model makes every such access the explicit outcome \<open>OutOfBounds\<close>.
  \<^item> A thrown \<^verbatim>\<open>std::runtime_error\<close> is a value of the datatype \<open>error\<close>. A method that
    mutates state returns its outcome together with the state at the moment it returned or
    threw, so that mutations made before a throw stay visible.
  \<^item> The process-wide object \<^verbatim>\<open>vm\<close> is passed in and returned explicitly.
  \<^item> Text written to \<^verbatim>\<open>std::cout\<close> is not modelled.
\<close>

unbundle bit_operations_syntax

subsection \<open>Virtual memory\<close>

type_synonym u8 = "8 word"
type_synonym u64 = "64 word"

abbreviation PAGE_SIZE :: u64 where "PAGE_SIZE \<equiv> 256"
abbreviation NUM_PAGES :: u64 where "NUM_PAGES \<equiv> 256"
abbreviation MEMORY_SIZE :: u64 where "MEMORY_SIZE \<equiv> PAGE_SIZE * NUM_PAGES"

datatype error =
    OutOfMemory               \<comment> \<open>\<^verbatim>\<open>"Out of memory"\<close>\<close>
  | SegFaultWrite             \<comment> \<open>\<^verbatim>\<open>"Segmentation fault: writing to unallocated memory"\<close>\<close>
  | SegFaultRead              \<comment> \<open>\<^verbatim>\<open>"Segmentation fault: reading from unallocated memory"\<close>\<close>
  | UnresolvedSymbol string   \<comment> \<open>\<^verbatim>\<open>"Unresolved symbol: " + name\<close>\<close>
  | OutOfBounds               \<comment> \<open>no exception: an array was indexed outside its bounds\<close>

record VirtualMemory =
  memory :: "nat \<Rightarrow> u8"          \<comment> \<open>\<^verbatim>\<open>std::array<uint8_t, MEMORY_SIZE>\<close>\<close>
  page_table :: "nat \<Rightarrow> bool"     \<comment> \<open>\<^verbatim>\<open>std::array<bool, NUM_PAGES>\<close>\<close>
  next_free_page :: u64

text \<open>The constructor value-initialises both arrays; the cursor starts at 0.\<close>

definition VirtualMemory_init :: VirtualMemory where
  "VirtualMemory_init =
     \<lparr>memory = (\<lambda>_. 0), page_table = (\<lambda>_. False), next_free_page = 0\<rparr>"

text \<open>
  The loop of \<^verbatim>\<open>allocate\<close>. Its counter \<^verbatim>\<open>i\<close> is not used in the body, so the model
  recurses on the number of iterations that remain. The index \<^verbatim>\<open>next_free_page\<close> is below
  \<open>NUM_PAGES\<close> when \<^verbatim>\<open>page_table\<close> is written, by the test just before.
\<close>

fun allocate_loop :: "nat \<Rightarrow> VirtualMemory \<Rightarrow> error option \<times> VirtualMemory" where
  "allocate_loop 0 vm = (None, vm)"
| "allocate_loop (Suc n) vm =
     (if NUM_PAGES \<le> next_free_page vm then (Some OutOfMemory, vm)
      else allocate_loop n
             (vm\<lparr>page_table := (page_table vm)(unat (next_free_page vm) := True),
                 next_free_page := next_free_page vm + 1\<rparr>))"

definition allocate :: "VirtualMemory \<Rightarrow> u64 \<Rightarrow> (error + u64) \<times> VirtualMemory" where
  "allocate vm sz =
     (let pages_needed = (sz + PAGE_SIZE - 1) div PAGE_SIZE;
          start_page = next_free_page vm
      in case allocate_loop (unat pages_needed) vm of
           (Some e, vm') \<Rightarrow> (Inl e, vm')
         | (None, vm') \<Rightarrow> (Inr (start_page * PAGE_SIZE), vm'))"

text \<open>
  \<^verbatim>\<open>write(address, data, size)\<close>, here \<open>vm_write\<close> (the source's name is reserved in
  Isabelle): \<open>data\<close> is the list of the \<open>size\<close> bytes at the pointer, and
  the loop is \<open>write_from\<close>, whose third argument is the counter \<^verbatim>\<open>i\<close> and whose fourth is
  the bytes \<open>data[i..size)\<close> still to be written. \<^verbatim>\<open>page_table[page]\<close> is inside the array
  only when \<open>page < NUM_PAGES\<close>; the source does not test this, and the model answers
  \<open>OutOfBounds\<close> there. When \<open>page < NUM_PAGES\<close>, the index \<open>address + i\<close> is below
  \<open>MEMORY_SIZE\<close>, so \<^verbatim>\<open>memory[address + i]\<close> is inside its array (lemma \<open>page_in_bounds\<close>).
  The local \<^verbatim>\<open>offset\<close> is computed and never used.
\<close>

fun write_from :: "VirtualMemory \<Rightarrow> u64 \<Rightarrow> nat \<Rightarrow> u8 list \<Rightarrow> error option \<times> VirtualMemory" where
  "write_from vm address i [] = (None, vm)"
| "write_from vm address i (b # bs) =
     (let page = (address + of_nat i) div PAGE_SIZE in
      if NUM_PAGES \<le> page then (Some OutOfBounds, vm)
      else if \<not> page_table vm (unat page) then (Some SegFaultWrite, vm)
      else write_from (vm\<lparr>memory := (memory vm)(unat (address + of_nat i) := b)\<rparr>)
             address (Suc i) bs)"

definition vm_write :: "VirtualMemory \<Rightarrow> u64 \<Rightarrow> u8 list \<Rightarrow> error option \<times> VirtualMemory" where
  "vm_write vm address data = write_from vm address 0 data"

text \<open>
  \<^verbatim>\<open>read(address, data, size)\<close>, here \<open>vm_read\<close>, is \<^verbatim>\<open>const\<close>: it returns the bytes it stored into the
  caller's buffer, or the error. The third argument of \<open>read_from\<close> is the counter
  \<^verbatim>\<open>i\<close>, the fourth the number of iterations that remain.
\<close>

fun read_from :: "VirtualMemory \<Rightarrow> u64 \<Rightarrow> nat \<Rightarrow> nat \<Rightarrow> error + u8 list" where
  "read_from vm address i 0 = Inr []"
| "read_from vm address i (Suc n) =
     (let page = (address + of_nat i) div PAGE_SIZE in
      if NUM_PAGES \<le> page then Inl OutOfBounds
      else if \<not> page_table vm (unat page) then Inl SegFaultRead
      else (case read_from vm address (Suc i) n of
              Inl e \<Rightarrow> Inl e
            | Inr bs \<Rightarrow> Inr (memory vm (unat (address + of_nat i)) # bs)))"

definition vm_read :: "VirtualMemory \<Rightarrow> u64 \<Rightarrow> u64 \<Rightarrow> error + u8 list" where
  "vm_read vm address sz = read_from vm address 0 (unat sz)"

text \<open>
  \<^verbatim>\<open>print_memory(start, size)\<close> is \<^verbatim>\<open>const\<close> and consults no page flag. The model returns
  the bytes it prints, in order, without the hexadecimal layout; \<^verbatim>\<open>memory[start + i]\<close>
  with \<open>start + i \<ge> MEMORY_SIZE\<close> is outside the array.
\<close>

fun print_from :: "VirtualMemory \<Rightarrow> u64 \<Rightarrow> nat \<Rightarrow> nat \<Rightarrow> error + u8 list" where
  "print_from vm start i 0 = Inr []"
| "print_from vm start i (Suc n) =
     (if MEMORY_SIZE \<le> start + of_nat i then Inl OutOfBounds
      else (case print_from vm start (Suc i) n of
              Inl e \<Rightarrow> Inl e
            | Inr bs \<Rightarrow> Inr (memory vm (unat (start + of_nat i)) # bs)))"

definition print_memory :: "VirtualMemory \<Rightarrow> u64 \<Rightarrow> u64 \<Rightarrow> error + u8 list" where
  "print_memory vm start sz = print_from vm start 0 (unat sz)"

subsection \<open>Symbols, relocations, libraries and executables\<close>

text \<open>
  The classes \<^verbatim>\<open>Symbol\<close>, \<^verbatim>\<open>Library\<close> and \<^verbatim>\<open>Executable\<close> each have a member \<^verbatim>\<open>name\<close>, and two
  of them a member \<^verbatim>\<open>base_address\<close>; the record fields carry a prefix to keep them apart.
  A \<^verbatim>\<open>std::unordered_map\<close> is a map; \<^verbatim>\<open>find\<close> returning \<^verbatim>\<open>end()\<close>, and the null pointer
  that \<^verbatim>\<open>findSymbol\<close> returns then, are \<open>None\<close>. A \<^verbatim>\<open>std::shared_ptr\<close> is modelled by the
  object it points to and is never null: a \<^verbatim>\<open>Symbol\<close> is immutable, and \<^verbatim>\<open>loadLibrary\<close> and
  \<^verbatim>\<open>linkExecutable\<close> only read the libraries they are handed, so during one call a
  pointer and the value behind it determine each other.
\<close>

record Symbol =
  sym_name :: string
  sym_address :: u64

record Relocation =
  symbolName :: string
  offset :: u64

record Library =
  lib_name :: string
  lib_base_address :: u64
  symbols :: "string \<rightharpoonup> Symbol"

text \<open>
  The object representation of a \<^verbatim>\<open>uint64_t\<close>, which \<^verbatim>\<open>vm.write(address, &x, sizeof(x))\<close>
  copies: 8 bytes, least significant first (a little-endian platform).
\<close>

definition bytes_of_u64 :: "u64 \<Rightarrow> u8 list" where
  "bytes_of_u64 w = map (\<lambda>i. ucast (drop_bit (8 * i) w)) [0..<8]"

definition Library_new :: "string \<Rightarrow> VirtualMemory \<Rightarrow> (error + Library) \<times> VirtualMemory" where
  "Library_new name vm =
     (case allocate vm PAGE_SIZE of
        (Inl e, vm') \<Rightarrow> (Inl e, vm')
      | (Inr a, vm') \<Rightarrow>
          (Inr \<lparr>lib_name = name, lib_base_address = a, symbols = Map.empty\<rparr>, vm'))"

text \<open>
  \<^verbatim>\<open>addSymbol\<close> registers the symbol first and writes the marker afterwards, so the
  library returned with an error already holds the new symbol.
\<close>

definition addSymbol ::
  "Library \<Rightarrow> string \<Rightarrow> u64 \<Rightarrow> VirtualMemory \<Rightarrow> error option \<times> Library \<times> VirtualMemory" where
  "addSymbol lib name off vm =
     (let address = lib_base_address lib + off;
          lib' = lib\<lparr>symbols := (symbols lib)(name \<mapsto> \<lparr>sym_name = name, sym_address = address\<rparr>)\<rparr>;
          dummy_func = 0xDEADBEEF
      in case vm_write vm address (bytes_of_u64 dummy_func) of
           (e, vm') \<Rightarrow> (e, lib', vm'))"

definition findSymbol :: "Library \<Rightarrow> string \<Rightarrow> Symbol option" where
  "findSymbol lib name = symbols lib name"

record Executable =
  exe_name :: string
  exe_base_address :: u64
  dependencies :: "Library list"
  relocations :: "Relocation list"
  symbolAddresses :: "string \<rightharpoonup> u64"

definition Executable_new :: "string \<Rightarrow> VirtualMemory \<Rightarrow> (error + Executable) \<times> VirtualMemory" where
  "Executable_new name vm =
     (case allocate vm PAGE_SIZE of
        (Inl e, vm') \<Rightarrow> (Inl e, vm')
      | (Inr a, vm') \<Rightarrow>
          (Inr \<lparr>exe_name = name, exe_base_address = a, dependencies = [],
                relocations = [], symbolAddresses = Map.empty\<rparr>, vm'))"

definition addDependency :: "Executable \<Rightarrow> Library \<Rightarrow> Executable" where
  "addDependency exe lib = exe\<lparr>dependencies := dependencies exe @ [lib]\<rparr>"

definition addRelocation :: "Executable \<Rightarrow> string \<Rightarrow> u64 \<Rightarrow> Executable" where
  "addRelocation exe name off =
     exe\<lparr>relocations := relocations exe @ [\<lparr>symbolName = name, offset = off\<rparr>]\<rparr>"

subsection \<open>The dynamic linker\<close>

record DynamicLinker =
  loadedLibraries :: "string \<rightharpoonup> Library"

definition DynamicLinker_init :: DynamicLinker where
  "DynamicLinker_init = \<lparr>loadedLibraries = Map.empty\<rparr>"

definition loadLibrary :: "DynamicLinker \<Rightarrow> Library \<Rightarrow> DynamicLinker" where
  "loadLibrary linker lib =
     linker\<lparr>loadedLibraries := (loadedLibraries linker)(lib_name lib \<mapsto> lib)\<rparr>"

text \<open>The first loop of \<^verbatim>\<open>linkExecutable\<close>: load the dependencies not yet loaded by name.\<close>

fun load_dependencies :: "DynamicLinker \<Rightarrow> Library list \<Rightarrow> DynamicLinker" where
  "load_dependencies linker [] = linker"
| "load_dependencies linker (dep # deps) =
     (if loadedLibraries linker (lib_name dep) = None
      then load_dependencies (loadLibrary linker dep) deps
      else load_dependencies linker deps)"

text \<open>
  The inner loop, \<^verbatim>\<open>for (const auto& lib : loadedLibraries)\<close>. C++ leaves the order in which
  a \<^verbatim>\<open>std::unordered_map\<close> is traversed unspecified (it depends on the hash function, the
  bucket count and the history of insertions), and the container keeps no record of the
  order of insertion. The traversal order is therefore an argument: the list of keys in
  the order the iterator yields them. A key of the list that has no entry is passed over.
\<close>

fun find_in_loaded :: "(string \<rightharpoonup> Library) \<Rightarrow> string list \<Rightarrow> string \<Rightarrow> Symbol option" where
  "find_in_loaded libs [] name = None"
| "find_in_loaded libs (k # ks) name =
     (case libs k of
        None \<Rightarrow> find_in_loaded libs ks name
      | Some lib \<Rightarrow>
          (case findSymbol lib name of
             Some resolvedSymbol \<Rightarrow> Some resolvedSymbol
           | None \<Rightarrow> find_in_loaded libs ks name))"

text \<open>The second loop of \<^verbatim>\<open>linkExecutable\<close>, over \<^verbatim>\<open>exe->relocations\<close>.\<close>

fun relocate_all ::
  "(string \<rightharpoonup> Library) \<Rightarrow> string list \<Rightarrow> Relocation list \<Rightarrow> Executable \<Rightarrow> VirtualMemory
     \<Rightarrow> error option \<times> Executable \<times> VirtualMemory" where
  "relocate_all libs order [] exe vm = (None, exe, vm)"
| "relocate_all libs order (relocation # rest) exe vm =
     (case find_in_loaded libs order (symbolName relocation) of
        None \<Rightarrow> (Some (UnresolvedSymbol (symbolName relocation)), exe, vm)
      | Some resolvedSymbol \<Rightarrow>
          (let relocatedAddress = sym_address resolvedSymbol;
               exe' = exe\<lparr>symbolAddresses :=
                         (symbolAddresses exe)(symbolName relocation \<mapsto> relocatedAddress)\<rparr>;
               relocationAddress = exe_base_address exe + offset relocation
           in case vm_write vm relocationAddress (bytes_of_u64 relocatedAddress) of
                (Some e, vm') \<Rightarrow> (Some e, exe', vm')
              | (None, vm') \<Rightarrow> relocate_all libs order rest exe' vm'))"

text \<open>
  \<^verbatim>\<open>linkExecutable\<close>. The argument \<open>iteration\<close> gives, for the registry as it stands after
  the dependencies are loaded, the order in which the container is traversed; the
  registry does not change during the second loop, so every relocation sees the same
  order.
\<close>

definition linkExecutable ::
  "((string \<rightharpoonup> Library) \<Rightarrow> string list) \<Rightarrow> DynamicLinker \<Rightarrow> Executable \<Rightarrow> VirtualMemory
     \<Rightarrow> error option \<times> DynamicLinker \<times> Executable \<times> VirtualMemory" where
  "linkExecutable iteration linker exe vm =
     (let linker' = load_dependencies linker (dependencies exe);
          libs = loadedLibraries linker'
      in case relocate_all libs (iteration libs) (relocations exe) exe vm of
           (e, exe', vm') \<Rightarrow> (e, linker', exe', vm'))"

subsection \<open>Sequences of operations\<close>

text \<open>
  Devices to state properties of several calls in a row; they are not in the source.
  \<open>allocate_all vm [s1, s2, \<dots>]\<close> performs \<^verbatim>\<open>allocate(s1)\<close>, \<^verbatim>\<open>allocate(s2)\<close>, \<dots> in turn and
  returns the addresses with the final state when every call returns normally, and
  \<open>None\<close> as soon as one throws.
\<close>

fun allocate_all :: "VirtualMemory \<Rightarrow> u64 list \<Rightarrow> (u64 list \<times> VirtualMemory) option" where
  "allocate_all vm [] = Some ([], vm)"
| "allocate_all vm (s # ss) =
     (case allocate vm s of
        (Inl e, vm') \<Rightarrow> None
      | (Inr a, vm') \<Rightarrow>
          (case allocate_all vm' ss of
             None \<Rightarrow> None
           | Some (as, vm'') \<Rightarrow> Some (a # as, vm'')))"

text \<open>
  \<open>run_ops\<close> performs any public operations of \<^verbatim>\<open>VirtualMemory\<close> in a row, as a caller does
  that catches each exception and carries on with the object as the throwing call left it.
  A run has no result (\<open>None\<close>) once an operation has indexed an array out of bounds.
\<close>

datatype vm_op = Allocate u64 | Write u64 "u8 list" | Read u64 u64 | Dump u64 u64

fun vm_step :: "VirtualMemory \<Rightarrow> vm_op \<Rightarrow> error option \<times> VirtualMemory" where
  "vm_step vm (Allocate sz) =
     (case allocate vm sz of (Inl e, vm') \<Rightarrow> (Some e, vm') | (Inr a, vm') \<Rightarrow> (None, vm'))"
| "vm_step vm (Write a bs) = vm_write vm a bs"
| "vm_step vm (Read a sz) =
     (case vm_read vm a sz of Inl e \<Rightarrow> (Some e, vm) | Inr bs \<Rightarrow> (None, vm))"
| "vm_step vm (Dump a sz) =
     (case print_memory vm a sz of Inl e \<Rightarrow> (Some e, vm) | Inr bs \<Rightarrow> (None, vm))"

fun run_ops :: "VirtualMemory \<Rightarrow> vm_op list \<Rightarrow> VirtualMemory option" where
  "run_ops vm [] = Some vm"
| "run_ops vm (op # ops) =
     (case vm_step vm op of
        (e, vm') \<Rightarrow> if e = Some OutOfBounds then None else run_ops vm' ops)"

text \<open>\<open>write_all\<close> performs a list of writes in order and stops at the first that throws.\<close>

fun write_all :: "VirtualMemory \<Rightarrow> (u64 \<times> u8 list) list \<Rightarrow> error option \<times> VirtualMemory" where
  "write_all vm [] = (None, vm)"
| "write_all vm ((a, bs) # ws) =
     (case vm_write vm a bs of
        (Some e, vm') \<Rightarrow> (Some e, vm')
      | (None, vm') \<Rightarrow> write_all vm' ws)"

text \<open>The forward-only relation between an earlier and a later state.\<close>

definition forward_only :: "VirtualMemory \<Rightarrow> VirtualMemory \<Rightarrow> bool" where
  "forward_only vm vm' \<longleftrightarrow>
     next_free_page vm \<le> next_free_page vm'
     \<and> (\<forall>p<256. page_table vm p \<longrightarrow> page_table vm' p)"

subsection \<open>Concrete states used as examples\<close>

text \<open>
  The states that \<^verbatim>\<open>main\<close> goes through: the first library gets the page at address 0,
  the second the page at \<open>0x100\<close>.
\<close>

definition one_page :: VirtualMemory where
  "one_page = snd (allocate VirtualMemory_init PAGE_SIZE)"

definition two_pages :: VirtualMemory where
  "two_pages = snd (allocate one_page PAGE_SIZE)"

definition libMath :: Library where
  "libMath = \<lparr>lib_name = ''libmath.so'', lib_base_address = 0, symbols = Map.empty\<rparr>"

definition libGraphics :: Library where
  "libGraphics =
     \<lparr>lib_name = ''libgraphics.so'', lib_base_address = 0x100, symbols = Map.empty\<rparr>"

text \<open>The address space after one successful allocation of all of it.\<close>

definition full_memory :: VirtualMemory where
  "full_memory = snd (allocate VirtualMemory_init MEMORY_SIZE)"

definition three_pages :: VirtualMemory where
  "three_pages = snd (allocate two_pages PAGE_SIZE)"

text \<open>
  Libraries and executables as the driver can build them. \<open>libMath_h\<close> and
  \<open>libGraphics_h\<close> are the two libraries with the symbol that \<^verbatim>\<open>addSymbol("h", 0x10)\<close>
  registers in each; \<open>libMath_again\<close> is a second \<^verbatim>\<open>Library("libmath.so")\<close>, constructed after the first.
  \<open>graphics_first\<close> and \<open>math_only\<close> are traversal orders of a registry whose keys are
  among the names listed: each visits exactly the keys present, in the order of the list.
\<close>

definition libMath_h :: Library where
  "libMath_h = libMath\<lparr>symbols := [''h'' \<mapsto> \<lparr>sym_name = ''h'', sym_address = 0x10\<rparr>]\<rparr>"

definition libGraphics_h :: Library where
  "libGraphics_h = libGraphics\<lparr>symbols := [''h'' \<mapsto> \<lparr>sym_name = ''h'', sym_address = 0x110\<rparr>]\<rparr>"

definition libMath_again :: Library where
  "libMath_again = \<lparr>lib_name = ''libmath.so'', lib_base_address = 0x100, symbols = Map.empty\<rparr>"

definition both_loaded :: DynamicLinker where
  "both_loaded = loadLibrary (loadLibrary DynamicLinker_init libMath_h) libGraphics_h"

definition graphics_first :: "(string \<rightharpoonup> Library) \<Rightarrow> string list" where
  "graphics_first libs = filter (\<lambda>k. libs k \<noteq> None) [''libgraphics.so'', ''libmath.so'']"

definition math_only :: "(string \<rightharpoonup> Library) \<Rightarrow> string list" where
  "math_only libs = filter (\<lambda>k. libs k \<noteq> None) [''libmath.so'']"

definition myApp :: Executable where
  "myApp = \<lparr>exe_name = ''myapp'', exe_base_address = 0x200,
            dependencies = [libMath_h],
            relocations = [\<lparr>symbolName = ''h'', offset = 0x10\<rparr>,
                           \<lparr>symbolName = ''missing'', offset = 0x20\<rparr>],
            symbolAddresses = Map.empty\<rparr>"

definition app2 :: Executable where
  "app2 = \<lparr>exe_name = ''app2'', exe_base_address = 0x200,
            dependencies = [libMath_h, libGraphics_h],
            relocations = [\<lparr>symbolName = ''h'', offset = 0x10\<rparr>],
            symbolAddresses = Map.empty\<rparr>"

text \<open>
  An executable without dependencies that is linked twice: first by a linker into which
  the driver has loaded \<open>libMath_h\<close>, then by a second, fresh linker.
\<close>

definition math_loaded :: DynamicLinker where
  "math_loaded = loadLibrary DynamicLinker_init libMath_h"

definition app3 :: Executable where
  "app3 = \<lparr>exe_name = ''app3'', exe_base_address = 0x200, dependencies = [],
           relocations = [\<lparr>symbolName = ''h'', offset = 0x10\<rparr>],
           symbolAddresses = Map.empty\<rparr>"

definition app3_linked :: Executable where
  "app3_linked = fst (snd (snd (linkExecutable math_only math_loaded app3 three_pages)))"

definition memory_linked :: VirtualMemory where
  "memory_linked = snd (snd (snd (linkExecutable math_only math_loaded app3 three_pages)))"

section \<open>Auxiliary lemmas\<close>

lemma unat_plus_of_nat:
  "unat (a::u64) + i < 2 ^ 64 \<Longrightarrow> unat (a + of_nat i) = unat a + i"
  by (simp add: unat_word_ariths unat_of_nat)

lemma page_in_bounds: "\<not> NUM_PAGES \<le> (a::u64) div PAGE_SIZE \<Longrightarrow> a < MEMORY_SIZE"
  by (simp add: word_le_nat_alt word_less_nat_alt unat_div)

lemma length_bytes_of_u64: "length (bytes_of_u64 w) = 8"
  by (simp add: bytes_of_u64_def)

lemma one_page_eq:
  "one_page = \<lparr>memory = (\<lambda>_. 0), page_table = (\<lambda>_. False)(0 := True), next_free_page = 1\<rparr>"
  by (simp add: one_page_def allocate_def VirtualMemory_init_def)

lemma two_pages_eq:
  "two_pages = \<lparr>memory = (\<lambda>_. 0), page_table = ((\<lambda>_. False)(0 := True))(Suc 0 := True),
                 next_free_page = 2\<rparr>"
  by (simp add: two_pages_def one_page_eq allocate_def word_le_nat_alt)

subsection \<open>Writing and reading\<close>

lemma write_from_flags:
  "page_table (snd (write_from vm a i bs)) = page_table vm
   \<and> next_free_page (snd (write_from vm a i bs)) = next_free_page vm"
  by (induction bs arbitrary: vm i) (simp_all add: Let_def)

lemma write_from_memory_below:
  "unat a + i + length bs \<le> 2 ^ 64 \<Longrightarrow> k < unat a + i \<Longrightarrow>
   memory (snd (write_from vm a i bs)) k = memory vm k"
proof (induction bs arbitrary: vm i)
  case Nil
  then show ?case by simp
next
  case (Cons b bs)
  from Cons.prems have "unat (a + of_nat i) = unat a + i"
    by (intro unat_plus_of_nat) simp
  with Cons.prems Cons.IH [of "Suc i"] show ?case
    by (simp add: Let_def)
qed

lemma write_then_read_from:
  "write_from vm a i bs = (None, vm') \<Longrightarrow> unat a + i + length bs \<le> 2 ^ 64 \<Longrightarrow>
   read_from vm' a i (length bs) = Inr bs"
proof (induction bs arbitrary: vm i)
  case Nil
  then show ?case by simp
next
  case (Cons b bs)
  let ?vm1 = "vm\<lparr>memory := (memory vm)(unat (a + of_nat i) := b)\<rparr>"
  from Cons.prems(2) have idx: "unat (a + of_nat i) = unat a + i"
    by (intro unat_plus_of_nat) simp
  from Cons.prems(1) have page: "\<not> NUM_PAGES \<le> (a + of_nat i) div PAGE_SIZE"
    and flag: "page_table vm (unat ((a + of_nat i) div PAGE_SIZE))"
    and rest: "write_from ?vm1 a (Suc i) bs = (None, vm')"
    by (simp_all add: Let_def split: if_splits)
  from rest have vm': "vm' = snd (write_from ?vm1 a (Suc i) bs)" by simp
  have pt: "page_table vm' = page_table vm"
    unfolding vm' using write_from_flags [of ?vm1 a "Suc i" bs] by simp
  have "memory vm' (unat a + i) = memory ?vm1 (unat a + i)"
    unfolding vm' using Cons.prems(2) by (intro write_from_memory_below) simp_all
  then have byte: "memory vm' (unat (a + of_nat i)) = b"
    by (simp add: idx)
  from Cons.IH [OF rest] Cons.prems(2)
  have "read_from vm' a (Suc i) (length bs) = Inr bs" by simp
  with page flag pt byte show ?case by (simp add: Let_def)
qed

lemma write_ok_first_in_memory:
  "vm_write vm a (b # bs) = (None, vm') \<Longrightarrow> unat a < 65536"
  by (simp add: vm_write_def Let_def word_le_nat_alt unat_div split: if_splits)

lemma write_then_read:
  assumes "vm_write vm a bs = (None, vm')" and "length bs < 2 ^ 63"
  shows "vm_read vm' a (of_nat (length bs)) = Inr bs"
proof (cases bs)
  case Nil
  then show ?thesis by (simp add: vm_read_def)
next
  case (Cons b bs')
  with assms(1) have "unat a < 65536" by (auto dest: write_ok_first_in_memory)
  with assms(2) have "unat a + 0 + length bs \<le> 2 ^ 64" by simp
  with assms(1) have "read_from vm' a 0 (length bs) = Inr bs"
    unfolding vm_write_def by (rule write_then_read_from)
  moreover from assms(2) have "unat (of_nat (length bs) :: u64) = length bs"
    by (simp add: unat_of_nat)
  ultimately show ?thesis by (simp add: vm_read_def)
qed

lemma write_from_in_range:
  "unat a + i + length bs \<le> 65536 \<Longrightarrow>
   fst (write_from vm a i bs) =
     (if \<forall>j<length bs. page_table vm ((unat a + i + j) div 256) then None
      else Some SegFaultWrite)"
proof (induction bs arbitrary: vm i)
  case Nil
  then show ?case by simp
next
  case (Cons b bs)
  from Cons.prems have idx: "unat (a + of_nat i) = unat a + i"
    by (intro unat_plus_of_nat) simp
  from Cons.prems have page: "\<not> NUM_PAGES \<le> (a + of_nat i) div PAGE_SIZE"
    by (simp add: word_le_nat_alt unat_div idx)
  have all: "(\<forall>j<Suc (length bs). P j) \<longleftrightarrow> P 0 \<and> (\<forall>j<length bs. P (Suc j))" for P
    by (auto simp: less_Suc_eq_0_disj)
  from Cons.prems Cons.IH [of "Suc i"] page show ?case
    by (simp add: Let_def unat_div idx all)
qed

subsection \<open>Allocation\<close>

lemma cursor_Suc: "\<not> NUM_PAGES \<le> (c::u64) \<Longrightarrow> unat (c + 1) = Suc (unat c)"
  using unat_plus_of_nat [of c 1] by (simp add: word_le_nat_alt)

lemma allocate_loop_fits:
  "unat (next_free_page vm) + n \<le> 256 \<Longrightarrow>
   allocate_loop n vm =
     (None, vm\<lparr>page_table := (\<lambda>p. page_table vm p
                    \<or> (unat (next_free_page vm) \<le> p \<and> p < unat (next_free_page vm) + n)),
               next_free_page := next_free_page vm + of_nat n\<rparr>)"
proof (induction n arbitrary: vm)
  case 0
  have "(\<lambda>p. page_table vm p \<or> (unat (next_free_page vm) \<le> p \<and> p < unat (next_free_page vm)))
          = page_table vm" by auto
  then show ?case by simp
next
  case (Suc n)
  let ?c = "next_free_page vm"
  from Suc.prems have lt: "\<not> NUM_PAGES \<le> ?c" by (simp add: word_le_nat_alt)
  let ?vm1 = "vm\<lparr>page_table := (page_table vm)(unat ?c := True), next_free_page := ?c + 1\<rparr>"
  have c1: "unat (?c + 1) = Suc (unat ?c)" using lt by (rule cursor_Suc)
  with Suc.prems have "unat (next_free_page ?vm1) + n \<le> 256" by simp
  from Suc.IH [OF this]
  have step: "allocate_loop n ?vm1 =
     (None, vm\<lparr>page_table := (\<lambda>p. ((page_table vm)(unat ?c := True)) p
                    \<or> (Suc (unat ?c) \<le> p \<and> p < Suc (unat ?c) + n)),
               next_free_page := ?c + 1 + of_nat n\<rparr>)"
    by (simp add: c1)
  have "(\<lambda>p. ((page_table vm)(unat ?c := True)) p \<or> (Suc (unat ?c) \<le> p \<and> p < Suc (unat ?c) + n))
        = (\<lambda>p. page_table vm p \<or> (unat ?c \<le> p \<and> p < unat ?c + Suc n))"
    by (auto simp: fun_eq_iff)
  with step lt show ?case by (simp add: add.assoc)
qed

lemma allocate_loop_exhausts:
  "next_free_page vm \<le> NUM_PAGES \<Longrightarrow> 256 < unat (next_free_page vm) + n \<Longrightarrow>
   allocate_loop n vm =
     (Some OutOfMemory,
      vm\<lparr>page_table := (\<lambda>p. page_table vm p \<or> (unat (next_free_page vm) \<le> p \<and> p < 256)),
         next_free_page := NUM_PAGES\<rparr>)"
proof (induction n arbitrary: vm)
  case 0
  then show ?case by (simp add: word_le_nat_alt)
next
  case (Suc n)
  let ?c = "next_free_page vm"
  show ?case
  proof (cases "NUM_PAGES \<le> ?c")
    case True
    with Suc.prems(1) have c: "?c = NUM_PAGES" by simp
    then have "(\<lambda>p. page_table vm p \<or> (unat ?c \<le> p \<and> p < 256)) = page_table vm" by auto
    moreover have "vm\<lparr>page_table := page_table vm, next_free_page := ?c\<rparr> = vm" by simp
    ultimately show ?thesis using c by simp
  next
    case False
    let ?vm1 = "vm\<lparr>page_table := (page_table vm)(unat ?c := True), next_free_page := ?c + 1\<rparr>"
    have c1: "unat (?c + 1) = Suc (unat ?c)" using False by (rule cursor_Suc)
    from False have lt: "unat ?c < 256" by (simp add: word_le_nat_alt)
    with c1 have le: "next_free_page ?vm1 \<le> NUM_PAGES" by (simp add: word_le_nat_alt)
    from Suc.prems(2) c1 have "256 < unat (next_free_page ?vm1) + n" by simp
    from Suc.IH [OF le this]
    have step: "allocate_loop n ?vm1 =
       (Some OutOfMemory,
        vm\<lparr>page_table := (\<lambda>p. ((page_table vm)(unat ?c := True)) p \<or> (Suc (unat ?c) \<le> p \<and> p < 256)),
           next_free_page := NUM_PAGES\<rparr>)"
      by (simp add: c1)
    have "(\<lambda>p. ((page_table vm)(unat ?c := True)) p \<or> (Suc (unat ?c) \<le> p \<and> p < 256))
          = (\<lambda>p. page_table vm p \<or> (unat ?c \<le> p \<and> p < 256))"
      using lt by (auto simp: fun_eq_iff)
    with step False show ?thesis by simp
  qed
qed

lemma allocate_loop_forward:
  "next_free_page vm \<le> next_free_page (snd (allocate_loop n vm))
   \<and> (\<forall>p. page_table vm p \<longrightarrow> page_table (snd (allocate_loop n vm)) p)
   \<and> memory (snd (allocate_loop n vm)) = memory vm"
proof (induction n arbitrary: vm)
  case 0
  then show ?case by simp
next
  case (Suc n)
  let ?c = "next_free_page vm"
  show ?case
  proof (cases "NUM_PAGES \<le> ?c")
    case True
    then show ?thesis by simp
  next
    case False
    let ?vm1 = "vm\<lparr>page_table := (page_table vm)(unat ?c := True), next_free_page := ?c + 1\<rparr>"
    from False have "?c \<le> next_free_page ?vm1"
      by (simp add: word_le_nat_alt cursor_Suc)
    with Suc.IH [of ?vm1] False show ?thesis by auto
  qed
qed

lemma pages_needed_unat:
  assumes "unat s + 255 < 2 ^ 64"
  shows "unat ((s + PAGE_SIZE - 1) div PAGE_SIZE) = (unat s + 255) div 256"
proof -
  have a: "s + PAGE_SIZE - 1 = s + 255" by simp
  have b: "unat (s + 255) = unat s + 255"
    using unat_plus_of_nat [of s 255] assms by simp
  have c: "unat PAGE_SIZE = 256" by simp
  show ?thesis by (simp only: a unat_div b c)
qed

lemma allocate_ok:
  assumes inv: "next_free_page vm \<le> NUM_PAGES"
    and ok: "allocate vm s = (Inr a, vm')"
    and sz: "unat s + 255 < 2 ^ 64"
  shows "a = next_free_page vm * PAGE_SIZE"
    and "unat a = unat (next_free_page vm) * 256"
    and "unat (next_free_page vm') = unat (next_free_page vm) + (unat s + 255) div 256"
    and "next_free_page vm' \<le> NUM_PAGES"
proof -
  let ?c = "next_free_page vm"
  let ?n = "(unat s + 255) div 256"
  have n: "unat ((s + PAGE_SIZE - 1) div PAGE_SIZE) = ?n"
    using sz by (rule pages_needed_unat)
  have alloc: "allocate vm s =
      (case allocate_loop ?n vm of
         (Some e, vm') \<Rightarrow> (Inl e, vm')
       | (None, vm') \<Rightarrow> (Inr (?c * PAGE_SIZE), vm'))"
    by (simp only: allocate_def Let_def n)
  from inv have c: "unat ?c \<le> 256" by (simp add: word_le_nat_alt)
  have fits: "unat ?c + ?n \<le> 256"
  proof (rule ccontr)
    assume "\<not> unat ?c + ?n \<le> 256"
    then have "256 < unat ?c + ?n" by simp
    from allocate_loop_exhausts [OF inv this] ok show False
      by (simp add: alloc)
  qed
  from allocate_loop_fits [OF fits] ok
  have a: "a = ?c * PAGE_SIZE" and vm': "next_free_page vm' = ?c + of_nat ?n"
    by (auto simp: alloc)
  show "a = ?c * PAGE_SIZE" by (fact a)
  from c show "unat a = unat ?c * 256"
    by (simp add: a unat_word_ariths)
  from fits show u: "unat (next_free_page vm') = unat ?c + ?n"
    by (simp add: vm' unat_plus_of_nat)
  from fits u show "next_free_page vm' \<le> NUM_PAGES"
    by (simp add: word_le_nat_alt)
qed

lemma allocate_all_props:
  assumes "next_free_page vm \<le> NUM_PAGES"
    and "allocate_all vm ss = Some (as, vm')"
    and "\<forall>s\<in>set ss. unat s + 255 < 2 ^ 64"
  shows "(\<forall>a\<in>set as. unat (next_free_page vm) * 256 \<le> unat a \<and> unat a mod 256 = 0)
       \<and> sorted_wrt (\<le>) as
       \<and> ((\<forall>s\<in>set ss. s \<noteq> 0) \<longrightarrow> sorted_wrt (<) as)
       \<and> unat (next_free_page vm') =
           unat (next_free_page vm) + (\<Sum>s\<leftarrow>ss. (unat s + 255) div 256)"
  using assms
proof (induction ss arbitrary: vm as)
  case Nil
  then show ?case by simp
next
  case (Cons s ss)
  from Cons.prems(2) obtain a vm1 as' where
    first: "allocate vm s = (Inr a, vm1)" and
    rest: "allocate_all vm1 ss = Some (as', vm')" and
    as: "as = a # as'"
    by (auto split: prod.splits sum.splits option.splits)
  from Cons.prems(3) have sz: "unat s + 255 < 2 ^ 64" by simp
  note step = allocate_ok [OF Cons.prems(1) first sz]
  from Cons.prems(3) have "\<forall>s\<in>set ss. unat s + 255 < 2 ^ 64" by simp
  note ih = Cons.IH [OF step(4) rest this]
  let ?c = "unat (next_free_page vm)"
  have ge: "\<forall>b\<in>set as'. ?c * 256 \<le> unat b \<and> unat a \<le> unat b"
    using ih step(2,3) by auto
  have gt: "\<forall>b\<in>set as'. unat a < unat b" if "s \<noteq> 0"
  proof -
    from that have "0 < unat s" by (simp add: unat_gt_0)
    then have "1 \<le> (unat s + 255) div 256" by simp
    with ih step(2,3) show ?thesis by fastforce
  qed
  show ?case
    using ih ge gt step(2,3)
    by (auto simp: as word_le_nat_alt word_less_nat_alt)
qed

lemma full_memory_eq:
  "full_memory = \<lparr>memory = (\<lambda>_. 0), page_table = (\<lambda>p. p < 256), next_free_page = NUM_PAGES\<rparr>"
proof -
  have n: "unat ((MEMORY_SIZE + PAGE_SIZE - 1) div PAGE_SIZE) = 256" by simp
  have "unat (next_free_page VirtualMemory_init) + 256 \<le> 256"
    by (simp add: VirtualMemory_init_def)
  from allocate_loop_fits [OF this] show ?thesis
    by (simp add: full_memory_def allocate_def n VirtualMemory_init_def)
qed

lemma allocate_when_full:
  assumes "next_free_page vm = NUM_PAGES"
  shows "allocate vm PAGE_SIZE = (Inl OutOfMemory, vm)"
proof -
  have "unat ((PAGE_SIZE + PAGE_SIZE - 1) div PAGE_SIZE) = Suc 0" by simp
  then show ?thesis unfolding allocate_def Let_def by (simp add: assms)
qed

lemma forward_only_refl: "forward_only vm vm"
  by (simp add: forward_only_def)

lemma forward_only_trans: "forward_only a b \<Longrightarrow> forward_only b c \<Longrightarrow> forward_only a c"
  by (auto simp: forward_only_def)

lemma vm_step_forward: "forward_only vm (snd (vm_step vm op))"
proof (cases op)
  case (Allocate sz)
  then show ?thesis
    using allocate_loop_forward [of vm "unat ((sz + PAGE_SIZE - 1) div PAGE_SIZE)"]
    by (auto simp: forward_only_def allocate_def Let_def split: prod.splits option.splits)
next
  case (Write a bs)
  then show ?thesis
    using write_from_flags [of vm a 0 bs] by (simp add: forward_only_def vm_write_def)
next
  case (Read a sz)
  then show ?thesis by (simp add: forward_only_refl split: sum.splits)
next
  case (Dump a sz)
  then show ?thesis by (simp add: forward_only_refl split: sum.splits)
qed

text \<open>
  Along a run in which no operation indexes an array out of bounds, the failing calls
  (\<open>OutOfMemory\<close>, \<open>SegmentationFault\<close>) included, the cursor never decreases and no page
  flagged allocated becomes free again.
\<close>

lemma run_ops_forward_only:
  "run_ops vm ops = Some vm' \<Longrightarrow> forward_only vm vm'"
proof (induction ops arbitrary: vm)
  case Nil
  then show ?case by (simp add: forward_only_refl)
next
  case (Cons op ops)
  from Cons.prems have "run_ops (snd (vm_step vm op)) ops = Some vm'"
    by (simp split: prod.splits if_splits)
  then have "forward_only (snd (vm_step vm op)) vm'" by (rule Cons.IH)
  with vm_step_forward [of vm op] show ?case by (rule forward_only_trans)
qed

lemma allocate_loop_cursor_bounded:
  assumes "next_free_page vm \<le> NUM_PAGES"
  shows "next_free_page (snd (allocate_loop n vm)) \<le> NUM_PAGES"
proof (cases "unat (next_free_page vm) + n \<le> 256")
  case True
  then have "unat (next_free_page vm + of_nat n) \<le> 256"
    by (simp add: unat_plus_of_nat)
  with allocate_loop_fits [OF True] show ?thesis
    by (simp add: word_le_nat_alt)
next
  case False
  then have "256 < unat (next_free_page vm) + n" by simp
  from allocate_loop_exhausts [OF assms this] show ?thesis by simp
qed

lemma vm_step_cursor_bounded:
  assumes "next_free_page vm \<le> NUM_PAGES"
  shows "next_free_page (snd (vm_step vm op)) \<le> NUM_PAGES"
proof (cases op)
  case (Allocate sz)
  with allocate_loop_cursor_bounded [OF assms, of "unat ((sz + PAGE_SIZE - 1) div PAGE_SIZE)"]
  show ?thesis
    by (auto simp: allocate_def Let_def split: prod.splits option.splits)
next
  case (Write a bs)
  with assms write_from_flags [of vm a 0 bs] show ?thesis by (simp add: vm_write_def)
next
  case (Read a sz)
  with assms show ?thesis by (simp split: sum.splits)
next
  case (Dump a sz)
  with assms show ?thesis by (simp split: sum.splits)
qed

text \<open>
  The cursor never exceeds \<open>NUM_PAGES\<close> in a state reached from the constructor's by the
  public operations.
\<close>

lemma run_ops_cursor_bounded_from:
  "next_free_page vm \<le> NUM_PAGES \<Longrightarrow> run_ops vm ops = Some vm' \<Longrightarrow>
   next_free_page vm' \<le> NUM_PAGES"
proof (induction ops arbitrary: vm)
  case Nil
  then show ?case by simp
next
  case (Cons op ops)
  from Cons.prems(2) have "run_ops (snd (vm_step vm op)) ops = Some vm'"
    by (simp split: prod.splits if_splits)
  with vm_step_cursor_bounded [OF Cons.prems(1)] show ?case by (rule Cons.IH)
qed

lemma run_ops_cursor_bounded:
  assumes "run_ops VirtualMemory_init ops = Some vm'"
  shows "next_free_page vm' \<le> NUM_PAGES"
proof -
  have "next_free_page VirtualMemory_init \<le> NUM_PAGES"
    by (simp add: VirtualMemory_init_def)
  from this assms show ?thesis by (rule run_ops_cursor_bounded_from)
qed

subsection \<open>Resolution and relocation\<close>

lemma find_in_loaded_none:
  "(\<forall>k\<in>set order. \<forall>lib. libs k = Some lib \<longrightarrow> findSymbol lib name = None) \<Longrightarrow>
   find_in_loaded libs order name = None"
  by (induction order) (auto split: option.splits)

lemma find_in_loaded_skip:
  "(\<forall>k\<in>set ks. \<forall>lib. libs k = Some lib \<longrightarrow> findSymbol lib name = None) \<Longrightarrow>
   find_in_loaded libs (ks @ rest) name = find_in_loaded libs rest name"
  by (induction ks) (auto split: option.splits)

lemma both_loaded_eq:
  "loadedLibraries both_loaded =
     [''libmath.so'' \<mapsto> libMath_h, ''libgraphics.so'' \<mapsto> libGraphics_h]"
  by (simp add: both_loaded_def loadLibrary_def DynamicLinker_init_def libMath_h_def
      libGraphics_h_def libMath_def libGraphics_def)

lemma relocate_all_append:
  "relocate_all libs order (pre @ rest) exe vm =
     (case relocate_all libs order pre exe vm of
        (None, exe1, vm1) \<Rightarrow> relocate_all libs order rest exe1 vm1
      | (Some e, exe1, vm1) \<Rightarrow> (Some e, exe1, vm1))"
  by (induction pre arbitrary: exe vm) (auto simp: Let_def split: option.splits prod.splits)

lemma relocate_all_done:
  assumes "relocate_all libs order pre exe vm = (None, exe1, vm1)"
  shows "exe1 = exe\<lparr>symbolAddresses :=
                  (\<lambda>n. if n \<in> symbolName ` set pre
                       then map_option sym_address (find_in_loaded libs order n)
                       else symbolAddresses exe n)\<rparr>
       \<and> write_all vm (map (\<lambda>q. (exe_base_address exe + offset q,
              bytes_of_u64 (sym_address (the (find_in_loaded libs order (symbolName q)))))) pre)
           = (None, vm1)"
  using assms
proof (induction pre arbitrary: exe vm)
  case Nil
  then show ?case by simp
next
  case (Cons r pre)
  from Cons.prems obtain found vm' where
    found: "find_in_loaded libs order (symbolName r) = Some found" and
    w: "vm_write vm (exe_base_address exe + offset r) (bytes_of_u64 (sym_address found)) = (None, vm')" and
    rest: "relocate_all libs order pre
             (exe\<lparr>symbolAddresses := (symbolAddresses exe)(symbolName r \<mapsto> sym_address found)\<rparr>) vm'
           = (None, exe1, vm1)"
    by (auto simp: Let_def split: option.splits prod.splits)
  let ?exe' = "exe\<lparr>symbolAddresses := (symbolAddresses exe)(symbolName r \<mapsto> sym_address found)\<rparr>"
  note ih = Cons.IH [OF rest]
  have "(\<lambda>n. if n \<in> symbolName ` set pre
             then map_option sym_address (find_in_loaded libs order n)
             else symbolAddresses ?exe' n)
      = (\<lambda>n. if n \<in> symbolName ` set (r # pre)
             then map_option sym_address (find_in_loaded libs order n)
             else symbolAddresses exe n)"
    using found by (auto simp: fun_eq_iff)
  with ih have "exe1 = exe\<lparr>symbolAddresses :=
                  (\<lambda>n. if n \<in> symbolName ` set (r # pre)
                       then map_option sym_address (find_in_loaded libs order n)
                       else symbolAddresses exe n)\<rparr>"
    by simp
  moreover from ih found w
  have "write_all vm (map (\<lambda>q. (exe_base_address exe + offset q,
              bytes_of_u64 (sym_address (the (find_in_loaded libs order (symbolName q))))))
            (r # pre)) = (None, vm1)"
    by simp
  ultimately show ?case by simp
qed

lemma relocate_all_resolved:
  assumes "relocate_all libs order pre exe vm = (None, exe1, vm1)"
  shows "\<forall>q\<in>set pre. find_in_loaded libs order (symbolName q) \<noteq> None"
  using assms
proof (induction pre arbitrary: exe vm)
  case Nil
  then show ?case by simp
next
  case (Cons r pre)
  from Cons.prems obtain found vm' where
    found: "find_in_loaded libs order (symbolName r) = Some found" and
    rest: "relocate_all libs order pre
             (exe\<lparr>symbolAddresses := (symbolAddresses exe)(symbolName r \<mapsto> sym_address found)\<rparr>) vm'
           = (None, exe1, vm1)"
    by (auto simp: Let_def split: option.splits prod.splits)
  from Cons.IH [OF rest] found show ?case by simp
qed

section \<open>Properties\<close>

text \<open>
  Claim C1, as amended. Let the relocation list of the executable be \<open>pre @ r # post\<close>, let
  the loop reach \<open>r\<close> (the relocations \<open>pre\<close> before it are processed without an error,
  leaving the executable \<open>exe1\<close> and the memory \<open>vm1\<close>), and let no library of the registry,
  as it stands after the dependencies are loaded, export the name of \<open>r\<close>. Then, whatever
  the traversal order of the registry, \<^verbatim>\<open>linkExecutable\<close> fails with \<open>UnresolvedSymbol\<close>
  carrying exactly that name, and nothing is rolled back. It leaves the executable \<open>exe1\<close>,
  whose \<^verbatim>\<open>symbolAddresses\<close> is the map from before the call with exactly the names of \<open>pre\<close>
  set, each to its resolved address; if the map was empty before the call, its entries are
  exactly those of \<open>pre\<close>. And it leaves the memory \<open>vm1\<close>, in which the 8-byte writes of
  \<open>pre\<close> have been applied in list order.
\<close>

theorem linkExecutable_unresolved:
  assumes "relocations exe = pre @ r # post"
    and "linker' = load_dependencies linker (dependencies exe)"
    and "libs = loadedLibraries linker'"
    and "relocate_all libs (iteration libs) pre exe vm = (None, exe1, vm1)"
    and "\<forall>k lib. libs k = Some lib \<longrightarrow> findSymbol lib (symbolName r) = None"
  shows "linkExecutable iteration linker exe vm
           = (Some (UnresolvedSymbol (symbolName r)), linker', exe1, vm1)
       \<and> exe1 = exe\<lparr>symbolAddresses :=
                  (\<lambda>n. if n \<in> symbolName ` set pre
                       then map_option sym_address (find_in_loaded libs (iteration libs) n)
                       else symbolAddresses exe n)\<rparr>
       \<and> (\<forall>q\<in>set pre. find_in_loaded libs (iteration libs) (symbolName q) \<noteq> None)
       \<and> (symbolAddresses exe = Map.empty \<longrightarrow> dom (symbolAddresses exe1) = symbolName ` set pre)
       \<and> write_all vm (map (\<lambda>q. (exe_base_address exe + offset q,
              bytes_of_u64 (sym_address
                (the (find_in_loaded libs (iteration libs) (symbolName q)))))) pre)
           = (None, vm1)"
proof -
  from assms(5) have "find_in_loaded libs (iteration libs) (symbolName r) = None"
    by (intro find_in_loaded_none) simp
  then have "relocate_all libs (iteration libs) (r # post) exe1 vm1
               = (Some (UnresolvedSymbol (symbolName r)), exe1, vm1)"
    by simp
  with assms(4) have "relocate_all libs (iteration libs) (pre @ r # post) exe vm
               = (Some (UnresolvedSymbol (symbolName r)), exe1, vm1)"
    by (simp add: relocate_all_append)
  with assms(1,2,3) have link: "linkExecutable iteration linker exe vm
           = (Some (UnresolvedSymbol (symbolName r)), linker', exe1, vm1)"
    by (simp add: linkExecutable_def Let_def)
  note state = relocate_all_done [OF assms(4)]
  note resolved = relocate_all_resolved [OF assms(4)]
  have "dom (symbolAddresses exe1) = symbolName ` set pre" if "symbolAddresses exe = Map.empty"
  proof -
    from state have "symbolAddresses exe1 =
        (\<lambda>n. if n \<in> symbolName ` set pre
             then map_option sym_address (find_in_loaded libs (iteration libs) n)
             else symbolAddresses exe n)"
      by simp
    then have "symbolAddresses exe1 =
        (\<lambda>n. if n \<in> symbolName ` set pre
             then map_option sym_address (find_in_loaded libs (iteration libs) n) else None)"
      by (simp only: that)
    with resolved show ?thesis by (auto simp: dom_def split: if_splits)
  qed
  with link state resolved show ?thesis by blast
qed

theorem linkExecutable_unresolved_witness:
  "fst (linkExecutable math_only DynamicLinker_init myApp three_pages)
     = Some (UnresolvedSymbol ''missing'')
   \<and> symbolAddresses (fst (snd (snd (linkExecutable math_only DynamicLinker_init myApp
         three_pages)))) ''h'' = Some 0x10
   \<and> symbolAddresses (fst (snd (snd (linkExecutable math_only DynamicLinker_init myApp
         three_pages)))) ''missing'' = None
   \<and> vm_read (snd (snd (snd (linkExecutable math_only DynamicLinker_init myApp three_pages))))
         0x210 8 = Inr [0x10, 0, 0, 0, 0, 0, 0, 0]"
proof -
  let ?linker' = "load_dependencies DynamicLinker_init (dependencies myApp)"
  let ?libs = "loadedLibraries ?linker'"
  let ?pre = "[\<lparr>symbolName = ''h'', offset = 0x10\<rparr>]"
  let ?r = "\<lparr>symbolName = ''missing'', offset = 0x20\<rparr>"
  let ?p = "relocate_all ?libs (math_only ?libs) ?pre myApp three_pages"
  have "fst ?p = None" by code_simp
  then have reach: "?p = (None, fst (snd ?p), snd (snd ?p))" by (metis prod.collapse)
  have split: "relocations myApp = ?pre @ ?r # []" by (simp add: myApp_def)
  have none: "\<forall>k lib. ?libs k = Some lib \<longrightarrow> findSymbol lib (symbolName ?r) = None"
    by (auto simp: myApp_def loadLibrary_def DynamicLinker_init_def libMath_h_def libMath_def
        findSymbol_def split: if_splits)
  note t = linkExecutable_unresolved [where iteration = math_only and linker = DynamicLinker_init,
      OF split refl refl reach none]
  from t have link: "linkExecutable math_only DynamicLinker_init myApp three_pages
      = (Some (UnresolvedSymbol (symbolName ?r)), ?linker', fst (snd ?p), snd (snd ?p))"
    by (elim conjE)
  have "symbolAddresses (fst (snd ?p)) ''h'' = Some 0x10" by code_simp
  moreover have "symbolAddresses (fst (snd ?p)) ''missing'' = None" by code_simp
  moreover have "vm_read (snd (snd ?p)) 0x210 8 = Inr [0x10, 0, 0, 0, 0, 0, 0, 0]" by code_simp
  ultimately show ?thesis by (simp add: link)
qed

text \<open>
  The claim as stated fails for an executable that was linked before: \<open>app3\<close>, linked
  successfully once, keeps the entry for \<open>h\<close> when a second link fails at its first
  relocation, before which no relocation was processed.
\<close>

theorem relinked_executable_counterexample:
  "fst (linkExecutable math_only math_loaded app3 three_pages) = None
   \<and> relocations app3_linked = [\<lparr>symbolName = ''h'', offset = 0x10\<rparr>]
   \<and> fst (linkExecutable math_only DynamicLinker_init app3_linked memory_linked)
       = Some (UnresolvedSymbol ''h'')
   \<and> symbolAddresses (fst (snd (snd (linkExecutable math_only DynamicLinker_init app3_linked
         memory_linked)))) ''h'' = Some 0x10"
proof -
  have "fst (linkExecutable math_only math_loaded app3 three_pages) = None" by code_simp
  moreover have "relocations app3_linked = [\<lparr>symbolName = ''h'', offset = 0x10\<rparr>]"
    by code_simp
  moreover have "fst (linkExecutable math_only DynamicLinker_init app3_linked memory_linked)
       = Some (UnresolvedSymbol ''h'')" by code_simp
  moreover have "symbolAddresses (fst (snd (snd (linkExecutable math_only DynamicLinker_init
       app3_linked memory_linked)))) ''h'' = Some 0x10" by code_simp
  ultimately show ?thesis by (intro conjI)
qed

text \<open>
  Claim C2, which the code does not meet. An access that starts at or beyond
  \<open>PAGE_SIZE \<times> NUM_PAGES\<close> computes a page number of at least \<open>NUM_PAGES\<close> and indexes
  \<^verbatim>\<open>page_table\<close> with it: the lookup is outside the array, for \<^verbatim>\<open>write\<close> and for \<^verbatim>\<open>read\<close>
  alike, so no \<open>SegmentationFault\<close> is raised and the access is not well-defined.
\<close>

theorem access_beyond_memory_out_of_bounds:
  assumes "MEMORY_SIZE \<le> a" and "sz \<noteq> 0"
  shows "fst (vm_write vm a (b # bs)) = Some OutOfBounds \<and> vm_read vm a sz = Inl OutOfBounds"
proof -
  from assms(1) have page: "NUM_PAGES \<le> a div PAGE_SIZE"
    by (simp add: word_le_nat_alt unat_div)
  from assms(2) obtain n where n: "unat sz = Suc n"
    by (cases "unat sz") (simp_all add: unat_eq_0)
  from page show ?thesis
    by (simp add: vm_write_def vm_read_def n)
qed

theorem access_beyond_memory_out_of_bounds_witness:
  "MEMORY_SIZE \<le> (0x10000 :: u64) \<and> (1 :: u64) \<noteq> 0
   \<and> fst (vm_write VirtualMemory_init 0x10000 [0xEF]) = Some OutOfBounds
   \<and> vm_read VirtualMemory_init 0x10000 1 = Inl OutOfBounds"
  using access_beyond_memory_out_of_bounds [of "0x10000" 1 VirtualMemory_init "0xEF" "[]"]
  by simp

text \<open>
  Claim C3, as amended. Take a state whose cursor is at most \<open>NUM_PAGES\<close> (every state
  reached from the constructor is one) and a sequence of successful calls
  \<^verbatim>\<open>allocate(s1)\<close>, \<^verbatim>\<open>allocate(s2)\<close>, \<dots> with each \<open>si + PAGE_SIZE - 1\<close> below \<open>2 ^ 64\<close>. The
  returned addresses never decrease, they are strictly increasing when no \<open>si\<close> is 0, each
  is a multiple of \<open>PAGE_SIZE\<close>, and the cursor advances by the sum of the
  \<open>ceil(si / PAGE_SIZE)\<close>.
\<close>

theorem allocate_sequence:
  assumes "next_free_page vm \<le> NUM_PAGES"
    and "allocate_all vm ss = Some (as, vm')"
    and "\<forall>s\<in>set ss. unat s + 255 < 2 ^ 64"
  shows "sorted_wrt (\<le>) as
       \<and> ((\<forall>s\<in>set ss. s \<noteq> 0) \<longrightarrow> sorted_wrt (<) as)
       \<and> (\<forall>a\<in>set as. a mod PAGE_SIZE = 0)
       \<and> unat (next_free_page vm') =
           unat (next_free_page vm) + (\<Sum>s\<leftarrow>ss. (unat s + 255) div 256)"
proof -
  note p = allocate_all_props [OF assms]
  have "a mod PAGE_SIZE = 0" if "a \<in> set as" for a
  proof -
    from p that have "unat a mod 256 = 0" by simp
    then have "unat (a mod PAGE_SIZE) = 0" by (simp add: unat_mod)
    then show ?thesis by (simp add: unat_eq_0)
  qed
  with p show ?thesis by simp
qed

theorem allocate_sequence_witness:
  "next_free_page VirtualMemory_init \<le> NUM_PAGES
   \<and> map_option fst (allocate_all VirtualMemory_init [1, 0x100, 0x101, 0x300])
       = Some [0, 0x100, 0x200, 0x400]
   \<and> sorted_wrt (<) [0, 0x100, 0x200, 0x400 :: u64]
   \<and> unat (next_free_page (snd (the (allocate_all VirtualMemory_init [1, 0x100, 0x101, 0x300]))))
       = 1 + 1 + 2 + 3"
proof -
  let ?ss = "[1, 0x100, 0x101, 0x300] :: u64 list"
  have "map_option fst (allocate_all VirtualMemory_init ?ss) = Some [0, 0x100, 0x200, 0x400]"
    by code_simp
  then obtain vm' where
    run: "allocate_all VirtualMemory_init ?ss = Some ([0, 0x100, 0x200, 0x400], vm')"
    by auto
  have inv: "next_free_page VirtualMemory_init \<le> NUM_PAGES"
    by (simp add: VirtualMemory_init_def)
  have sizes: "\<forall>s\<in>set ?ss. unat s + 255 < 2 ^ 64" by simp
  from allocate_sequence [OF inv run sizes] inv run show ?thesis
    by (simp add: VirtualMemory_init_def)
qed

text \<open>
  The claim as stated fails twice. Two calls \<^verbatim>\<open>allocate(0)\<close> both succeed and return the
  same address. And \<^verbatim>\<open>allocate(2 ^ 64 - 1)\<close> succeeds and consumes no page, because
  \<open>size + PAGE_SIZE - 1\<close> wraps to 254, while \<open>ceil(size / PAGE_SIZE)\<close> is \<open>2 ^ 56\<close>.
\<close>

theorem allocate_sequence_counterexample:
  "map_option fst (allocate_all VirtualMemory_init [0, 0]) = Some [0, 0]
   \<and> \<not> sorted_wrt (<) [0, 0 :: u64]
   \<and> fst (allocate VirtualMemory_init 0xFFFFFFFFFFFFFFFF) = Inr 0
   \<and> next_free_page (snd (allocate VirtualMemory_init 0xFFFFFFFFFFFFFFFF))
       = next_free_page VirtualMemory_init
   \<and> (unat (0xFFFFFFFFFFFFFFFF :: u64) + 255) div 256 = 2 ^ 56"
proof -
  have "map_option fst (allocate_all VirtualMemory_init [0, 0]) = Some [0, 0]" by code_simp
  moreover have "fst (allocate VirtualMemory_init 0xFFFFFFFFFFFFFFFF) = Inr 0" by code_simp
  moreover have "next_free_page (snd (allocate VirtualMemory_init 0xFFFFFFFFFFFFFFFF))
       = next_free_page VirtualMemory_init" by code_simp
  ultimately show ?thesis by simp
qed

text \<open>
  Claim C4, as amended. The write of the marker consults the page flags only, and a flag
  does not record an owner. When the 8 bytes at \<open>base_address + offset\<close> lie inside the
  address space, \<^verbatim>\<open>addSymbol\<close> fails with \<open>SegmentationFault\<close> exactly if one of them is in
  a page that is not flagged allocated, and it succeeds if all their pages are allocated,
  whoever they were allocated to.
\<close>

theorem addSymbol_faults_iff_unallocated:
  assumes "unat (lib_base_address lib + off) + 8 \<le> 65536"
  shows "fst (addSymbol lib n off vm) =
           (if \<forall>j<8. page_table vm ((unat (lib_base_address lib + off) + j) div 256)
            then None else Some SegFaultWrite)"
proof -
  from assms
  have "fst (write_from vm (lib_base_address lib + off) 0 (bytes_of_u64 0xDEADBEEF)) =
          (if \<forall>j<length (bytes_of_u64 0xDEADBEEF).
                 page_table vm ((unat (lib_base_address lib + off) + 0 + j) div 256)
           then None else Some SegFaultWrite)"
    by (intro write_from_in_range) (simp add: length_bytes_of_u64)
  then show ?thesis
    by (simp add: addSymbol_def vm_write_def length_bytes_of_u64 Let_def case_prod_beta)
qed

text \<open>
  The instance is the first call of \<^verbatim>\<open>main\<close>, \<^verbatim>\<open>libMath->addSymbol("sqrt", 0x100)\<close>: the
  library owns page 0 and the address \<open>0x100\<close> is in page 1, which nobody has allocated yet.
\<close>

theorem addSymbol_faults_iff_unallocated_witness:
  "unat (lib_base_address libMath + 0x100) + 8 \<le> 65536
   \<and> fst (addSymbol libMath ''sqrt'' 0x100 one_page) = Some SegFaultWrite"
proof -
  have a: "unat (lib_base_address libMath + 0x100) = 256" by (simp add: libMath_def)
  have "\<not> (\<forall>j<8. page_table one_page ((unat (lib_base_address libMath + 0x100) + j) div 256))"
    by (auto simp: a one_page_eq intro!: exI [of _ 0])
  with addSymbol_faults_iff_unallocated [of libMath "0x100" "''sqrt''" one_page] a
  show ?thesis by simp
qed

text \<open>
  The claim as stated fails: once a second library owns page 1, the same call, whose
  address is still outside the first library's page, succeeds.
\<close>

theorem addSymbol_foreign_page_counterexample:
  "Library_new ''libmath.so'' VirtualMemory_init = (Inr libMath, one_page)
   \<and> Library_new ''libgraphics.so'' one_page = (Inr libGraphics, two_pages)
   \<and> lib_base_address libMath + PAGE_SIZE \<le> lib_base_address libMath + 0x100
   \<and> fst (addSymbol libMath ''sqrt'' 0x100 two_pages) = None"
proof -
  have "fst (addSymbol libMath ''sqrt'' 0x100 two_pages) = None" by code_simp
  moreover have "Library_new ''libmath.so'' VirtualMemory_init = (Inr libMath, one_page)"
    by (simp add: Library_new_def one_page_def allocate_def VirtualMemory_init_def libMath_def)
  moreover have "Library_new ''libgraphics.so'' one_page = (Inr libGraphics, two_pages)"
    by (simp add: Library_new_def two_pages_def one_page_eq allocate_def libGraphics_def
        word_le_nat_alt)
  ultimately show ?thesis by (simp add: libMath_def)
qed

text \<open>
  Claim C5, as amended. Resolving a name selects the first library, in the order in which
  the registry is traversed, that exports it: the search returns a symbol exactly if the
  traversal splits into keys whose libraries do not export the name, followed by a key
  whose library exports that symbol. The choice is a function of the registry and of its
  traversal order, hence the same on every run with the same traversal order; the order of
  registration plays no part in it.
\<close>

theorem first_in_traversal_wins:
  "find_in_loaded libs order name = Some found \<longleftrightarrow>
     (\<exists>ks k ks' lib. order = ks @ k # ks' \<and> libs k = Some lib \<and> findSymbol lib name = Some found
        \<and> (\<forall>k'\<in>set ks. \<forall>lib'. libs k' = Some lib' \<longrightarrow> findSymbol lib' name = None))"
proof
  show "find_in_loaded libs order name = Some found \<Longrightarrow>
     \<exists>ks k ks' lib. order = ks @ k # ks' \<and> libs k = Some lib \<and> findSymbol lib name = Some found
        \<and> (\<forall>k'\<in>set ks. \<forall>lib'. libs k' = Some lib' \<longrightarrow> findSymbol lib' name = None)"
  proof (induction order)
    case Nil
    then show ?case by simp
  next
    case (Cons k order)
    show ?case
    proof (cases "\<exists>lib. libs k = Some lib \<and> findSymbol lib name \<noteq> None")
      case True
      then obtain lib where "libs k = Some lib" "findSymbol lib name \<noteq> None" by blast
      with Cons.prems have "libs k = Some lib \<and> findSymbol lib name = Some found" by auto
      then have "k # order = [] @ k # order \<and> libs k = Some lib \<and> findSymbol lib name = Some found
          \<and> (\<forall>k'\<in>set []. \<forall>lib'. libs k' = Some lib' \<longrightarrow> findSymbol lib' name = None)"
        by simp
      then show ?thesis by blast
    next
      case False
      then have skip: "\<forall>lib'. libs k = Some lib' \<longrightarrow> findSymbol lib' name = None" by auto
      with Cons.prems have "find_in_loaded libs order name = Some found"
        by (auto split: option.splits)
      from Cons.IH [OF this] obtain ks k0 ks' lib where
        "order = ks @ k0 # ks'" "libs k0 = Some lib" "findSymbol lib name = Some found"
        "\<forall>k'\<in>set ks. \<forall>lib'. libs k' = Some lib' \<longrightarrow> findSymbol lib' name = None"
        by blast
      with skip have "k # order = (k # ks) @ k0 # ks' \<and> libs k0 = Some lib
          \<and> findSymbol lib name = Some found
          \<and> (\<forall>k'\<in>set (k # ks). \<forall>lib'. libs k' = Some lib' \<longrightarrow> findSymbol lib' name = None)"
        by simp
      then show ?thesis by blast
    qed
  qed
next
  assume "\<exists>ks k ks' lib. order = ks @ k # ks' \<and> libs k = Some lib \<and> findSymbol lib name = Some found
        \<and> (\<forall>k'\<in>set ks. \<forall>lib'. libs k' = Some lib' \<longrightarrow> findSymbol lib' name = None)"
  then obtain ks k ks' lib where o: "order = ks @ k # ks'" and "libs k = Some lib"
    "findSymbol lib name = Some found"
    and skip: "\<forall>k'\<in>set ks. \<forall>lib'. libs k' = Some lib' \<longrightarrow> findSymbol lib' name = None"
    by blast
  then have "find_in_loaded libs (k # ks') name = Some found" by simp
  with find_in_loaded_skip [OF skip, of "k # ks'"] o
  show "find_in_loaded libs order name = Some found" by simp
qed

theorem first_in_traversal_wins_witness:
  "find_in_loaded (loadedLibraries both_loaded) [''libmath.so'', ''libgraphics.so''] ''h''
     = Some \<lparr>sym_name = ''h'', sym_address = 0x10\<rparr>"
proof -
  let ?libs = "loadedLibraries both_loaded"
  have "[''libmath.so'', ''libgraphics.so''] = [] @ ''libmath.so'' # [''libgraphics.so'']
      \<and> ?libs ''libmath.so'' = Some libMath_h
      \<and> findSymbol libMath_h ''h'' = Some \<lparr>sym_name = ''h'', sym_address = 0x10\<rparr>
      \<and> (\<forall>k'\<in>set []. \<forall>lib'. ?libs k' = Some lib' \<longrightarrow> findSymbol lib' ''h'' = None)"
    by (simp add: both_loaded_eq findSymbol_def libMath_h_def)
  then have "\<exists>ks k ks' lib. [''libmath.so'', ''libgraphics.so''] = ks @ k # ks'
      \<and> ?libs k = Some lib
      \<and> findSymbol lib ''h'' = Some \<lparr>sym_name = ''h'', sym_address = 0x10\<rparr>
      \<and> (\<forall>k'\<in>set ks. \<forall>lib'. ?libs k' = Some lib' \<longrightarrow> findSymbol lib' ''h'' = None)"
    by blast
  then show ?thesis by (rule first_in_traversal_wins [THEN iffD2])
qed

text \<open>
  The claim as stated fails: \<open>libMath_h\<close> is registered first and \<open>libGraphics_h\<close> second,
  both export \<open>h\<close>, and with a traversal that visits \<open>libgraphics.so\<close> first (an enumeration
  of the registry's keys without repetition, as C++ allows) the relocation for \<open>h\<close> gets the
  address from \<open>libGraphics_h\<close>.
\<close>

theorem first_registered_counterexample:
  "load_dependencies DynamicLinker_init (dependencies app2) = both_loaded
   \<and> distinct (graphics_first (loadedLibraries both_loaded))
   \<and> set (graphics_first (loadedLibraries both_loaded)) = dom (loadedLibraries both_loaded)
   \<and> find_in_loaded (loadedLibraries both_loaded) (graphics_first (loadedLibraries both_loaded)) ''h''
       = findSymbol libGraphics_h ''h''
   \<and> findSymbol libGraphics_h ''h'' \<noteq> findSymbol libMath_h ''h''
   \<and> fst (linkExecutable graphics_first DynamicLinker_init app2 three_pages) = None
   \<and> symbolAddresses (fst (snd (snd (linkExecutable graphics_first DynamicLinker_init app2
         three_pages)))) ''h'' = Some (sym_address (the (findSymbol libGraphics_h ''h'')))"
proof -
  have "load_dependencies DynamicLinker_init (dependencies app2) = both_loaded"
    by (simp add: app2_def both_loaded_def loadLibrary_def DynamicLinker_init_def libMath_h_def
      libGraphics_h_def libMath_def libGraphics_def)
  moreover have "distinct (graphics_first (loadedLibraries both_loaded))"
    by (simp add: graphics_first_def)
  moreover have "set (graphics_first (loadedLibraries both_loaded)) = dom (loadedLibraries both_loaded)"
    by (auto simp: graphics_first_def both_loaded_eq)
  moreover have "find_in_loaded (loadedLibraries both_loaded)
      (graphics_first (loadedLibraries both_loaded)) ''h'' = findSymbol libGraphics_h ''h''"
    by code_simp
  moreover have "findSymbol libGraphics_h ''h'' \<noteq> findSymbol libMath_h ''h''" by code_simp
  moreover have "fst (linkExecutable graphics_first DynamicLinker_init app2 three_pages) = None"
    by code_simp
  moreover have "symbolAddresses (fst (snd (snd (linkExecutable graphics_first DynamicLinker_init
      app2 three_pages)))) ''h'' = Some (sym_address (the (findSymbol libGraphics_h ''h'')))"
    by code_simp
  ultimately show ?thesis by (intro conjI)
qed

text \<open>
  Claim C6. If \<^verbatim>\<open>addSymbol(n, off)\<close> returns normally, then reading 8 bytes at
  \<open>base_address + off\<close> in the resulting memory gives the bytes of the marker
  \<open>0xDEADBEEF\<close>, and \<^verbatim>\<open>findSymbol(n)\<close> on the resulting library gives a symbol named \<open>n\<close>
  with address \<open>base_address + off\<close>.
\<close>

theorem addSymbol_marker_and_lookup:
  assumes "addSymbol lib n off vm = (None, lib', vm')"
  shows "vm_read vm' (lib_base_address lib + off) 8 = Inr (bytes_of_u64 0xDEADBEEF)
         \<and> findSymbol lib' n = Some \<lparr>sym_name = n, sym_address = lib_base_address lib + off\<rparr>"
proof -
  let ?a = "lib_base_address lib + off"
  from assms have w: "vm_write vm ?a (bytes_of_u64 0xDEADBEEF) = (None, vm')"
    and l: "lib' = lib\<lparr>symbols := (symbols lib)(n \<mapsto> \<lparr>sym_name = n, sym_address = ?a\<rparr>)\<rparr>"
    by (simp_all add: addSymbol_def Let_def split: prod.splits)
  from w have "vm_read vm' ?a (of_nat (length (bytes_of_u64 0xDEADBEEF)))
                 = Inr (bytes_of_u64 0xDEADBEEF)"
    by (rule write_then_read) (simp add: length_bytes_of_u64)
  then show ?thesis by (simp add: length_bytes_of_u64 l findSymbol_def)
qed

theorem addSymbol_marker_and_lookup_witness:
  "fst (addSymbol libMath ''sqrt'' 0x10 one_page) = None
   \<and> vm_read (snd (snd (addSymbol libMath ''sqrt'' 0x10 one_page))) 0x10 8
       = Inr [0xEF, 0xBE, 0xAD, 0xDE, 0, 0, 0, 0]
   \<and> findSymbol (fst (snd (addSymbol libMath ''sqrt'' 0x10 one_page))) ''sqrt''
       = Some \<lparr>sym_name = ''sqrt'', sym_address = 0x10\<rparr>"
proof -
  let ?r = "addSymbol libMath ''sqrt'' 0x10 one_page"
  have ok: "fst ?r = None" by code_simp
  then have "?r = (None, fst (snd ?r), snd (snd ?r))" by (metis prod.collapse)
  from addSymbol_marker_and_lookup [OF this] ok
  have "fst ?r = None
     \<and> vm_read (snd (snd ?r)) (lib_base_address libMath + 0x10) 8 = Inr (bytes_of_u64 0xDEADBEEF)
     \<and> findSymbol (fst (snd ?r)) ''sqrt''
         = Some \<lparr>sym_name = ''sqrt'', sym_address = lib_base_address libMath + 0x10\<rparr>"
    by simp
  moreover have "bytes_of_u64 0xDEADBEEF = [0xEF, 0xBE, 0xAD, 0xDE, 0, 0, 0, 0]" by code_simp
  moreover have "lib_base_address libMath + 0x10 = 0x10" by (simp add: libMath_def)
  ultimately show ?thesis by simp
qed

text \<open>
  Claim C7, which the code does not meet. The claim covers any sequence of operations.
  A \<^verbatim>\<open>write\<close> whose first byte is at or beyond \<open>PAGE_SIZE \<times> NUM_PAGES\<close> indexes
  \<^verbatim>\<open>page_table\<close> outside the array, for want of a bound test; if the stray flag reads
  true it stores the byte outside \<^verbatim>\<open>memory\<close>. In every state such a call is out of bounds
  and the run that contains it has no defined state from there on, so nothing keeps the
  page flags and the cursor as they were. (On the runs that stay inside both arrays the
  invariant does hold: lemma \<open>run_ops_forward_only\<close>.)
\<close>

theorem out_of_bounds_write_ends_run:
  assumes "MEMORY_SIZE \<le> a"
  shows "fst (vm_step vm (Write a (b # bs))) = Some OutOfBounds
         \<and> run_ops vm (Write a (b # bs) # ops) = None"
proof -
  from assms have "NUM_PAGES \<le> a div PAGE_SIZE"
    by (simp add: word_le_nat_alt unat_div)
  then have "vm_write vm a (b # bs) = (Some OutOfBounds, vm)"
    by (simp add: vm_write_def)
  then show ?thesis by simp
qed

text \<open>
  The instance: page 0 is allocated, then one zero byte is written at \<open>0x10000\<close>, the
  first address after the byte array.
\<close>

theorem out_of_bounds_write_ends_run_witness:
  "MEMORY_SIZE \<le> (0x10000 :: u64)
   \<and> page_table one_page 0
   \<and> fst (vm_step one_page (Write 0x10000 [0])) = Some OutOfBounds
   \<and> run_ops one_page [Write 0x10000 [0]] = None"
  using out_of_bounds_write_ends_run [of "0x10000" one_page 0 "[]" "[]"]
  by (simp add: one_page_eq)

text \<open>
  Claim C8, as amended. When the registry already has an entry for the name of the library
  passed in, \<^verbatim>\<open>loadLibrary\<close> leaves the key set unchanged and makes that name map to the
  library passed in, every other key keeping its library; it is a no-op exactly if the
  library passed in is the one already registered. The load-if-absent test is made by the
  dependency loop of \<^verbatim>\<open>linkExecutable\<close>, which leaves the registry unchanged for such a
  dependency.
\<close>

theorem loadLibrary_overwrites:
  assumes "loadedLibraries linker (lib_name lib) \<noteq> None"
  shows "dom (loadedLibraries (loadLibrary linker lib)) = dom (loadedLibraries linker)
       \<and> loadedLibraries (loadLibrary linker lib) = (loadedLibraries linker)(lib_name lib \<mapsto> lib)
       \<and> (loadLibrary linker lib = linker \<longleftrightarrow> loadedLibraries linker (lib_name lib) = Some lib)
       \<and> load_dependencies linker [lib] = linker"
proof -
  have "loadLibrary linker lib = linker \<longleftrightarrow> loadedLibraries linker (lib_name lib) = Some lib"
  proof
    assume "loadLibrary linker lib = linker"
    then have "loadedLibraries (loadLibrary linker lib) (lib_name lib)
                 = loadedLibraries linker (lib_name lib)" by simp
    then show "loadedLibraries linker (lib_name lib) = Some lib"
      by (simp add: loadLibrary_def)
  next
    assume "loadedLibraries linker (lib_name lib) = Some lib"
    then have "(loadedLibraries linker)(lib_name lib \<mapsto> lib) = loadedLibraries linker"
      by (rule map_upd_triv)
    then show "loadLibrary linker lib = linker" by (simp add: loadLibrary_def)
  qed
  with assms show ?thesis by (auto simp: loadLibrary_def)
qed

theorem loadLibrary_overwrites_witness:
  "loadedLibraries (loadLibrary DynamicLinker_init libMath) (lib_name libMath_again) = Some libMath
   \<and> loadedLibraries (loadLibrary (loadLibrary DynamicLinker_init libMath) libMath_again)
       ''libmath.so'' = Some libMath_again
   \<and> dom (loadedLibraries (loadLibrary (loadLibrary DynamicLinker_init libMath) libMath_again))
       = {''libmath.so''}
   \<and> load_dependencies (loadLibrary DynamicLinker_init libMath) [libMath_again]
       = loadLibrary DynamicLinker_init libMath"
proof -
  let ?linker = "loadLibrary DynamicLinker_init libMath"
  have old: "loadedLibraries ?linker (lib_name libMath_again) = Some libMath"
    by (simp add: loadLibrary_def DynamicLinker_init_def libMath_def libMath_again_def)
  then have "loadedLibraries ?linker (lib_name libMath_again) \<noteq> None" by simp
  from loadLibrary_overwrites [OF this] old show ?thesis
    by (simp add: loadLibrary_def DynamicLinker_init_def libMath_def libMath_again_def)
qed

text \<open>
  The claim as stated fails: a second library object with the same name replaces the
  registered one.
\<close>

theorem loadLibrary_not_idempotent_counterexample:
  "Library_new ''libmath.so'' VirtualMemory_init = (Inr libMath, one_page)
   \<and> Library_new ''libmath.so'' one_page = (Inr libMath_again, two_pages)
   \<and> loadedLibraries (loadLibrary DynamicLinker_init libMath) ''libmath.so'' = Some libMath
   \<and> loadedLibraries (loadLibrary (loadLibrary DynamicLinker_init libMath) libMath_again)
       ''libmath.so'' = Some libMath_again
   \<and> libMath_again \<noteq> libMath"
proof -
  have "Library_new ''libmath.so'' VirtualMemory_init = (Inr libMath, one_page)"
    by (simp add: Library_new_def one_page_def allocate_def VirtualMemory_init_def libMath_def)
  moreover have "Library_new ''libmath.so'' one_page = (Inr libMath_again, two_pages)"
    by (simp add: Library_new_def two_pages_def one_page_eq allocate_def libMath_again_def
        word_le_nat_alt)
  moreover have "libMath_again \<noteq> libMath"
    by (simp add: libMath_def libMath_again_def)
  ultimately show ?thesis
    by (simp add: loadLibrary_def DynamicLinker_init_def libMath_def libMath_again_def)
qed

text \<open>
  Claim C9, as amended. When \<^verbatim>\<open>allocate\<close> fails with \<open>OutOfMemory\<close> in a state whose
  cursor is at most \<open>NUM_PAGES\<close>, the state it leaves is the old one with every page from the
  old cursor to \<open>NUM_PAGES - 1\<close> flagged allocated and the cursor equal to \<open>NUM_PAGES\<close>. So
  the failing call has changed the address space exactly when the old cursor was below
  \<open>NUM_PAGES\<close>; with the cursor at \<open>NUM_PAGES\<close> already, it leaves the state as it was.
\<close>

theorem allocate_out_of_memory_state:
  assumes "next_free_page vm \<le> NUM_PAGES" and "allocate vm sz = (Inl OutOfMemory, vm')"
  shows "vm' = vm\<lparr>page_table := (\<lambda>p. page_table vm p \<or> (unat (next_free_page vm) \<le> p \<and> p < 256)),
                   next_free_page := NUM_PAGES\<rparr>
         \<and> next_free_page vm' = NUM_PAGES
         \<and> (\<forall>p. unat (next_free_page vm) \<le> p \<and> p < 256 \<longrightarrow> page_table vm' p)
         \<and> (vm' = vm \<longleftrightarrow> next_free_page vm = NUM_PAGES)"
proof -
  let ?n = "unat ((sz + PAGE_SIZE - 1) div PAGE_SIZE)"
  let ?c = "next_free_page vm"
  let ?vm' = "vm\<lparr>page_table := (\<lambda>p. page_table vm p \<or> (unat ?c \<le> p \<and> p < 256)),
                   next_free_page := NUM_PAGES\<rparr>"
  have "\<not> unat ?c + ?n \<le> 256"
  proof
    assume "unat ?c + ?n \<le> 256"
    from allocate_loop_fits [OF this] assms(2) show False
      by (simp add: allocate_def)
  qed
  then have "256 < unat ?c + ?n" by simp
  from allocate_loop_exhausts [OF assms(1) this] assms(2)
  have eq: "vm' = ?vm'" by (simp add: allocate_def)
  have "?vm' = vm \<longleftrightarrow> ?c = NUM_PAGES"
  proof
    assume "?vm' = vm"
    then have "next_free_page ?vm' = ?c" by simp
    then show "?c = NUM_PAGES" by simp
  next
    assume c: "?c = NUM_PAGES"
    then have "(\<lambda>p. page_table vm p \<or> (unat ?c \<le> p \<and> p < 256)) = page_table vm" by auto
    moreover have "vm\<lparr>page_table := page_table vm, next_free_page := ?c\<rparr> = vm" by simp
    ultimately show "?vm' = vm" using c by simp
  qed
  with eq show ?thesis by simp
qed

theorem allocate_out_of_memory_state_witness:
  "next_free_page one_page \<le> NUM_PAGES
   \<and> fst (allocate one_page MEMORY_SIZE) = Inl OutOfMemory
   \<and> next_free_page (snd (allocate one_page MEMORY_SIZE)) = NUM_PAGES
   \<and> page_table (snd (allocate one_page MEMORY_SIZE)) 255
   \<and> snd (allocate one_page MEMORY_SIZE) \<noteq> one_page"
proof -
  let ?r = "allocate one_page MEMORY_SIZE"
  have inv: "next_free_page one_page \<le> NUM_PAGES"
    by (simp add: one_page_eq word_le_nat_alt)
  have n: "unat ((MEMORY_SIZE + PAGE_SIZE - 1) div PAGE_SIZE) = 256" by simp
  have "256 < unat (next_free_page one_page) + 256" by (simp add: one_page_eq)
  from allocate_loop_exhausts [OF inv this] have fails: "fst ?r = Inl OutOfMemory"
    unfolding allocate_def Let_def n by simp
  then have r: "?r = (Inl OutOfMemory, snd ?r)" by (metis prod.collapse)
  note t = allocate_out_of_memory_state [OF inv r]
  from t have cursor: "next_free_page (snd ?r) = NUM_PAGES" by (elim conjE)
  from t have "\<forall>p. unat (next_free_page one_page) \<le> p \<and> p < 256 \<longrightarrow> page_table (snd ?r) p"
    by (elim conjE)
  then have flag: "page_table (snd ?r) 255" by (simp add: one_page_eq)
  from t have "snd ?r = one_page \<longleftrightarrow> next_free_page one_page = NUM_PAGES" by (elim conjE)
  then have changed: "snd ?r \<noteq> one_page" by (simp add: one_page_eq)
  from inv fails cursor flag changed show ?thesis by (intro conjI)
qed

text \<open>
  The claim as stated fails when no page is left: after one allocation of the whole
  address space, the allocation of one more page fails and changes nothing.
\<close>

theorem allocate_out_of_memory_counterexample:
  "fst (allocate VirtualMemory_init MEMORY_SIZE) = Inr 0
   \<and> allocate full_memory PAGE_SIZE = (Inl OutOfMemory, full_memory)"
proof -
  have n: "unat ((MEMORY_SIZE + PAGE_SIZE - 1) div PAGE_SIZE) = 256" by simp
  have "unat (next_free_page VirtualMemory_init) + 256 \<le> 256"
    by (simp add: VirtualMemory_init_def)
  from allocate_loop_fits [OF this] have "fst (allocate VirtualMemory_init MEMORY_SIZE) = Inr 0"
    unfolding allocate_def Let_def n by (simp add: VirtualMemory_init_def)
  moreover have "allocate full_memory PAGE_SIZE = (Inl OutOfMemory, full_memory)"
    by (rule allocate_when_full) (simp add: full_memory_eq)
  ultimately show ?thesis by (intro conjI)
qed

text \<open>
  Claim C10. In every state of the address space, \<^verbatim>\<open>allocate(0)\<close> succeeds, also when
  no free page remains; it flags no page, leaves the cursor where it was (the whole state
  is unchanged) and returns \<open>next_free_page \<times> PAGE_SIZE\<close>. Hence a second
  \<^verbatim>\<open>allocate(0)\<close>, run on the state the first one left, returns the same address.
\<close>

theorem allocate_zero:
  "allocate vm 0 = (Inr (next_free_page vm * PAGE_SIZE), vm)
   \<and> fst (allocate (snd (allocate vm 0)) 0) = fst (allocate vm 0)"
  by (simp add: allocate_def)

end
